theory Spec2Isabelle
  imports Main
begin

section \<open>The binary search tree of \<open>race.py\<close>\<close>

text \<open>
  The class \<open>BinarySearchTree\<close> keeps its nodes as Python lists: the empty list is an
  empty node, and a non-empty node is \<open>[left, right, value]\<close> or
  \<open>[left, right, value, sort_key]\<close>. Every child list is created by the insertion that
  fills its parent and is referenced from that parent only, so the nodes form a tree
  and are modelled as a datatype. The fourth component is optional: \<open>None\<close> stands for
  the three-element encoding.

  Names: a leading underscore cannot start an Isabelle name, and some names clash with
  constants or keywords of Isabelle, so \<open>_root\<close>, \<open>_sort_key\<close>, \<open>_len\<close> are the
  fields \<open>root\<close>, \<open>sort_key\<close>, \<open>len\<close>; \<open>__init__\<close> is \<open>init\<close>; \<open>insert\<close> is
  \<open>insert_bst\<close>; \<open>find\<close> is \<open>find_bst\<close>; \<open>values\<close> is \<open>values_bst\<close>; \<open>__len__\<close> is
  \<open>len_bst\<close>; \<open>_extreme_node\<close>, \<open>_find\<close>, \<open>_iter\<close>, \<open>_pprint\<close> are \<open>extreme_node\<close>,
  \<open>find_node\<close>, \<open>iter\<close>, \<open>pprint_node\<close>.
\<close>

subsection \<open>Data\<close>

text \<open>\<open>_LEFT = 0\<close> and \<open>_RIGHT = 1\<close>, the two child positions of a node.\<close>

datatype side = LEFT | RIGHT

datatype 'a node = Empty | Node "'a node" "'a node" 'a "'a option"

text \<open>The exceptions that the methods raise.\<close>

datatype error = IndexError | KeyError | AttributeError

text \<open>
  What a key function returns for a value: the value object itself, or another object.
  Insertion tests \<open>sort_key is value\<close>, which is object identity and not equality, so
  the model records which of the two the key function does.
\<close>

datatype 'a keyres = SameObject | NewObject 'a

record 'a bst =
  root :: "'a node"
  sort_key :: "('a \<Rightarrow> 'a keyres) option"
  len :: int

text \<open>\<open>node[_SORT_KEY]\<close>, the last element of a non-empty node.\<close>

definition last_slot :: "'a \<Rightarrow> 'a option \<Rightarrow> 'a" where
  "last_slot v ko = (case ko of None \<Rightarrow> v | Some k \<Rightarrow> k)"

text \<open>\<open>node[side]\<close> of a non-empty node with children \<open>l\<close> and \<open>r\<close>.\<close>

fun pick :: "side \<Rightarrow> 'a node \<Rightarrow> 'a node \<Rightarrow> 'a node" where
  "pick LEFT l r = l"
| "pick RIGHT l r = r"

subsection \<open>Construction and insertion\<close>

definition init :: "('a \<Rightarrow> 'a keyres) option \<Rightarrow> 'a bst" where
  "init sk = \<lparr>root = Empty, sort_key = sk, len = 0\<rparr>"

text \<open>
  The key of a value and whether it is the value object itself (lines 61 to 64 and the
  test of line 73).
\<close>

definition compute_key :: "('a \<Rightarrow> 'a keyres) option \<Rightarrow> 'a \<Rightarrow> 'a \<times> bool" where
  "compute_key sk v =
     (case sk of
        None \<Rightarrow> (v, True)
      | Some f \<Rightarrow> (case f v of SameObject \<Rightarrow> (v, True) | NewObject k \<Rightarrow> (k, False)))"

definition key_of :: "'a bst \<Rightarrow> 'a \<Rightarrow> 'a" where
  "key_of t v = fst (compute_key (sort_key t) v)"

text \<open>
  The walk down to an empty node and the slice assignment that fills it. The assignment
  changes the empty list in place, so the parent sees the new node: the model rebuilds
  the path.
\<close>

fun insert_loop :: "'a::linorder \<Rightarrow> bool \<Rightarrow> 'a \<Rightarrow> 'a node \<Rightarrow> 'a node" where
  "insert_loop k same v Empty =
     (if same then Node Empty Empty v None else Node Empty Empty v (Some k))"
| "insert_loop k same v (Node l r v' ko) =
     (if k < last_slot v' ko then Node (insert_loop k same v l) r v' ko
      else Node l (insert_loop k same v r) v' ko)"

definition insert_bst :: "'a::linorder \<Rightarrow> 'a bst \<Rightarrow> 'a bst" where
  "insert_bst v t =
     (let (k, same) = compute_key (sort_key t) v
      in t\<lparr>root := insert_loop k same v (root t), len := len t + 1\<rparr>)"

subsection \<open>Extremes and lookup\<close>

text \<open>
  \<open>extreme_loop\<close> is the loop of \<open>_extreme_node\<close>. Indexing the empty list raises
  IndexError; the loop never reaches an empty node, since the root is tested first and
  a child is entered only when it is non-empty.
\<close>

fun extreme_loop :: "side \<Rightarrow> 'a node \<Rightarrow> error + 'a node" where
  "extreme_loop s Empty = Inl IndexError"
| "extreme_loop LEFT (Node l r v ko) =
     (if l \<noteq> Empty then extreme_loop LEFT l else Inr (Node l r v ko))"
| "extreme_loop RIGHT (Node l r v ko) =
     (if r \<noteq> Empty then extreme_loop RIGHT r else Inr (Node l r v ko))"

definition extreme_node :: "side \<Rightarrow> 'a bst \<Rightarrow> error + 'a node" where
  "extreme_node s t = (if root t = Empty then Inl IndexError else extreme_loop s (root t))"

text \<open>\<open>node[_VALUE]\<close>.\<close>

fun node_value :: "'a node \<Rightarrow> error + 'a" where
  "node_value Empty = Inl IndexError"
| "node_value (Node l r v ko) = Inr v"

definition minimum :: "'a bst \<Rightarrow> error + 'a" where
  "minimum t = (case extreme_node LEFT t of Inl e \<Rightarrow> Inl e | Inr n \<Rightarrow> node_value n)"

definition maximum :: "'a bst \<Rightarrow> error + 'a" where
  "maximum t = (case extreme_node RIGHT t of Inl e \<Rightarrow> Inl e | Inr n \<Rightarrow> node_value n)"

fun find_loop :: "'a::linorder \<Rightarrow> 'a node \<Rightarrow> error + 'a node" where
  "find_loop k Empty = Inl KeyError"
| "find_loop k (Node l r v ko) =
     (if k < last_slot v ko then find_loop k l
      else if k > last_slot v ko then find_loop k r
      else Inr (Node l r v ko))"

definition find_node :: "'a::linorder \<Rightarrow> 'a bst \<Rightarrow> error + 'a node" where
  "find_node k t = find_loop k (root t)"

definition find_bst :: "'a::linorder \<Rightarrow> 'a bst \<Rightarrow> error + 'a" where
  "find_bst k t = (case find_node k t of Inl e \<Rightarrow> Inl e | Inr n \<Rightarrow> node_value n)"

subsection \<open>Removal\<close>

text \<open>
  \<open>pop_min\<close>, \<open>pop_max\<close> and \<open>pop\<close> call \<open>self._pop_node(...)\<close>. The class body defines
  no \<open>_pop_node\<close>: line 197 holds the comment \<open># Add pop-node here\<close> and nothing else,
  and the import of \<open>bind_all\<close> at the end of the file is wrapped in a \<open>try\<close> whose
  handler passes. A call evaluates the callee before its arguments, so the attribute
  lookup fails with AttributeError before \<open>_extreme_node\<close> or \<open>_find\<close> runs.
  \<open>pop_node_method\<close> is the result of that lookup: \<open>None\<close> for an attribute that the
  class does not have.
\<close>

definition pop_node_method :: "('a node \<Rightarrow> 'a bst \<Rightarrow> (error + 'a) \<times> 'a bst) option" where
  "pop_node_method = None"

definition pop_min :: "'a bst \<Rightarrow> (error + 'a) \<times> 'a bst" where
  "pop_min t =
     (case pop_node_method of
        None \<Rightarrow> (Inl AttributeError, t)
      | Some m \<Rightarrow> (case extreme_node LEFT t of Inl e \<Rightarrow> (Inl e, t) | Inr n \<Rightarrow> m n t))"

definition pop_max :: "'a bst \<Rightarrow> (error + 'a) \<times> 'a bst" where
  "pop_max t =
     (case pop_node_method of
        None \<Rightarrow> (Inl AttributeError, t)
      | Some m \<Rightarrow> (case extreme_node RIGHT t of Inl e \<Rightarrow> (Inl e, t) | Inr n \<Rightarrow> m n t))"

definition pop :: "'a::linorder \<Rightarrow> 'a bst \<Rightarrow> (error + 'a) \<times> 'a bst" where
  "pop k t =
     (case pop_node_method of
        None \<Rightarrow> (Inl AttributeError, t)
      | Some m \<Rightarrow> (case find_node k t of Inl e \<Rightarrow> (Inl e, t) | Inr n \<Rightarrow> m n t))"

subsection \<open>Traversal\<close>

text \<open>
  The generator \<open>_iter\<close> as the list of the values it yields. The stack is a Python
  list used at its end: \<open>append\<close> adds a last element and \<open>pop\<close> removes it. A node is
  pushed only when it is non-empty, so the entry popped is never the empty list (indexing
  it would raise IndexError and end the generator).
\<close>

fun weight :: "'a node \<Rightarrow> nat" where
  "weight Empty = 0"
| "weight (Node l r v ko) = 2 * weight l + 2 * weight r + 2"

fun pending :: "'a node \<Rightarrow> nat" where
  "pending Empty = 0"
| "pending (Node l r v ko) = weight l + weight r + 1"

lemma pending_split:
  "stack \<noteq> [] \<Longrightarrow>
   sum_list (map pending stack) = sum_list (map pending (butlast stack)) + pending (last stack)"
proof -
  assume "stack \<noteq> []"
  then have "stack = butlast stack @ [last stack]" by simp
  then have "sum_list (map pending stack) = sum_list (map pending (butlast stack @ [last stack]))"
    by simp
  then show ?thesis by simp
qed

lemma weight_pick: "weight (pick s l r) \<le> weight l + weight r"
  by (cases s) simp_all

function iter_loop :: "side \<Rightarrow> side \<Rightarrow> 'a node list \<Rightarrow> 'a node \<Rightarrow> 'a list" where
  "iter_loop pre post stack node =
     (if stack \<noteq> [] \<or> node \<noteq> Empty then
        (case node of
           Node l r v ko \<Rightarrow> iter_loop pre post (stack @ [node]) (pick pre l r)
         | Empty \<Rightarrow>
             (case last stack of
                Node l r v ko \<Rightarrow> v # iter_loop pre post (butlast stack) (pick post l r)
              | Empty \<Rightarrow> []))
      else [])"
  by pat_completeness auto

termination
proof (relation "measure (\<lambda>(pre, post, stack, node). weight node + sum_list (map pending stack))")
  show "wf (measure (\<lambda>(pre, post, stack, node). weight node + sum_list (map pending stack)))"
    by simp
next
  fix pre post :: side and stack :: "'a node list" and node l r :: "'a node" and v ko
  assume "node = Node l r v ko"
  then show "((pre, post, stack @ [node], pick pre l r), (pre, post, stack, node))
      \<in> measure (\<lambda>(pre, post, stack, node). weight node + sum_list (map pending stack))"
    using weight_pick [of pre l r] by simp
next
  fix pre post :: side and stack :: "'a node list" and node l r :: "'a node" and v ko
  assume a: "stack \<noteq> [] \<or> node \<noteq> Empty" "node = Empty" "last stack = Node l r v ko"
  then have "stack \<noteq> []" by simp
  then show "((pre, post, butlast stack, pick post l r), (pre, post, stack, node))
      \<in> measure (\<lambda>(pre, post, stack, node). weight node + sum_list (map pending stack))"
    using a pending_split [of stack] weight_pick [of post l r] by simp
qed

declare iter_loop.simps [simp del]

text \<open>
  The recursive traversal that the loop computes: first the \<open>pre\<close> side, then the node,
  then the \<open>post\<close> side; and what a stack entry still has to yield.
\<close>

lemma size_pick: "size (pick s l r) < Suc (x + size l + size r)"
  by (cases s) simp_all

function walk :: "side \<Rightarrow> side \<Rightarrow> 'a node \<Rightarrow> 'a list" where
  "walk pre post Empty = []"
| "walk pre post (Node l r v ko) = walk pre post (pick pre l r) @ [v] @ walk pre post (pick post l r)"
  by pat_completeness auto
termination
  by (relation "measure (\<lambda>(pre, post, n). size n)") (simp_all add: size_pick)

fun resume :: "side \<Rightarrow> side \<Rightarrow> 'a node \<Rightarrow> 'a list" where
  "resume pre post Empty = []"
| "resume pre post (Node l r v ko) = v # walk pre post (pick post l r)"

definition iter :: "side \<Rightarrow> side \<Rightarrow> 'a bst \<Rightarrow> 'a list" where
  "iter pre post t = iter_loop pre post [] (root t)"

definition values_bst :: "bool \<Rightarrow> 'a bst \<Rightarrow> 'a list" where
  "values_bst reverse t = (if reverse then iter RIGHT LEFT t else iter LEFT RIGHT t)"

definition len_bst :: "'a bst \<Rightarrow> int" where
  "len_bst t = len t"

subsection \<open>Rendering\<close>

text \<open>
  \<open>rp\<close> is the text that the format \<open>%r\<close> produces for a value or a key. \<open>spacer\<close>
  is 2 at every call. \<open>len(node) > 3\<close> holds for the four-element encoding, and the
  parameter \<open>show_key\<close> is handed down and read nowhere.
\<close>

definition spaces :: "nat \<Rightarrow> string" where
  "spaces n = replicate n (CHR '' '')"

fun pprint_node ::
  "('a \<Rightarrow> string) \<Rightarrow> 'a node \<Rightarrow> int \<Rightarrow> bool \<Rightarrow> nat \<Rightarrow> string list \<times> string \<times> string list" where
  "pprint_node rp Empty max_depth show_key spacer =
     (if max_depth = 0 then ([], ''- ...'', []) else ([], ''- EMPTY'', []))"
| "pprint_node rp (Node l r v ko) max_depth show_key spacer =
     (if max_depth = 0 then ([], ''- ...'', [])
      else
        (let mid_line = ''-'' @ rp v;
             mid_line = (case ko of None \<Rightarrow> mid_line
                         | Some k \<Rightarrow> mid_line @ '' (key='' @ rp k @ '')'');
             top_lines =
               (if l \<noteq> Empty then
                  (case pprint_node rp l (max_depth - 1) show_key spacer of
                     (t, m, b) \<Rightarrow>
                       (let indent = spaces (length b + spacer)
                        in map (\<lambda>line. indent @ '' '' @ line) t
                           @ [indent @ ''/'' @ m]
                           @ map (\<lambda>(i, line).
                                    spaces (length b - i + spacer - 1) @ ''/''
                                    @ spaces (i + 1) @ line)
                               (enumerate 0 b)))
                else []);
             bot_lines =
               (if r \<noteq> Empty then
                  (case pprint_node rp r (max_depth - 1) show_key spacer of
                     (t, m, b) \<Rightarrow>
                       (let indent = spaces (length t + spacer)
                        in map (\<lambda>(i, line).
                                  spaces (i + spacer) @ [CHR 0x5C]
                                  @ spaces (length t - i) @ line)
                             (enumerate 0 t)
                           @ [indent @ [CHR 0x5C] @ m]
                           @ map (\<lambda>line. indent @ '' '' @ line) b))
                else [])
         in (top_lines, mid_line, bot_lines)))"

definition rjust :: "string \<Rightarrow> nat \<Rightarrow> char \<Rightarrow> string" where
  "rjust s width fill = replicate (width - length s) fill @ s"

definition ljust :: "string \<Rightarrow> nat \<Rightarrow> string" where
  "ljust s width = s @ replicate (width - length s) (CHR '' '')"

fun join :: "string \<Rightarrow> string list \<Rightarrow> string" where
  "join sep [] = []"
| "join sep [x] = x"
| "join sep (x # y # ys) = x @ sep @ join sep (y # ys)"

text \<open>\<open>lines\<close> holds at least the middle line, so the maximum of the lengths exists.\<close>

definition pprint :: "('a \<Rightarrow> string) \<Rightarrow> int \<Rightarrow> bool \<Rightarrow> bool \<Rightarrow> 'a bst \<Rightarrow> string" where
  "pprint rp max_depth frame show_key t =
     (case pprint_node rp (root t) max_depth show_key 2 of
        (ts, m, b) \<Rightarrow>
          (let lines = ts @ [m] @ b
           in if frame then
                (let width = max 40 (fold max (map length lines) 0);
                     s = ''+-'' @ rjust ''MIN'' width (CHR ''-'') @ ''-+'' @ [CHR 0x0A];
                     s = s @ concat (map (\<lambda>line. ''| '' @ ljust line width @ '' |'' @ [CHR 0x0A])
                                       lines);
                     s = s @ ''+-'' @ rjust ''MAX'' width (CHR ''-'') @ ''-+'' @ [CHR 0x0A]
                 in s)
              else join [CHR 0x0A] lines))"

text \<open>The decimal text of an integer, which is what \<open>%r\<close> produces for a Python int.\<close>

fun digits :: "nat \<Rightarrow> string" where
  "digits n =
     (if n < 10 then [char_of (48 + n)] else digits (n div 10) @ [char_of (48 + n mod 10)])"

definition repr_int :: "int \<Rightarrow> string" where
  "repr_int i = (if i < 0 then ''-'' @ digits (nat (- i)) else digits (nat i))"

subsection \<open>The public operations as state transitions\<close>

text \<open>
  A call of a public method takes the tree to a result, returned or raised, and to the
  tree it leaves behind. Only \<open>insert\<close> assigns to a field or to a node; the other
  methods read.
\<close>

datatype 'a call =
    Insert 'a | Minimum | Maximum | Find 'a | Pop_min | Pop_max | Pop 'a
  | Values bool | Len | Pprint int bool bool

datatype 'a retval = NoneVal | Val 'a | Vals "'a list" | IntVal int | StrVal string

fun exec :: "('a \<Rightarrow> string) \<Rightarrow> 'a::linorder call \<Rightarrow> 'a bst \<Rightarrow> (error + 'a retval) \<times> 'a bst" where
  "exec rp (Insert v) t = (Inr NoneVal, insert_bst v t)"
| "exec rp Minimum t = (map_sum id Val (minimum t), t)"
| "exec rp Maximum t = (map_sum id Val (maximum t), t)"
| "exec rp (Find k) t = (map_sum id Val (find_bst k t), t)"
| "exec rp Pop_min t = (case pop_min t of (res, t') \<Rightarrow> (map_sum id Val res, t'))"
| "exec rp Pop_max t = (case pop_max t of (res, t') \<Rightarrow> (map_sum id Val res, t'))"
| "exec rp (Pop k) t = (case pop k t of (res, t') \<Rightarrow> (map_sum id Val res, t'))"
| "exec rp (Values reverse) t = (Inr (Vals (values_bst reverse t)), t)"
| "exec rp Len t = (Inr (IntVal (len_bst t)), t)"
| "exec rp (Pprint max_depth frame show_key) t =
     (Inr (StrVal (pprint rp max_depth frame show_key t)), t)"

fun run ::
  "('a \<Rightarrow> string) \<Rightarrow> 'a::linorder call list \<Rightarrow> 'a bst \<Rightarrow> (error + 'a retval) list \<times> 'a bst" where
  "run rp [] t = ([], t)"
| "run rp (c # cs) t =
     (case exec rp c t of
        (res, t') \<Rightarrow> (case run rp cs t' of (rs, t'') \<Rightarrow> (res # rs, t'')))"

text \<open>The trees that a program can hold: a constructed tree, and the tree after any call.\<close>

inductive reachable :: "'a::linorder bst \<Rightarrow> bool" where
  constructed: "reachable (init sk)"
| called: "reachable t \<Longrightarrow> reachable (snd (exec rp c t))"

subsection \<open>The search-tree invariant\<close>

text \<open>The keys and the values of a tree from left to right.\<close>

fun keys :: "'a node \<Rightarrow> 'a list" where
  "keys Empty = []"
| "keys (Node l r v ko) = keys l @ [last_slot v ko] @ keys r"

fun vals :: "'a node \<Rightarrow> 'a list" where
  "vals Empty = []"
| "vals (Node l r v ko) = vals l @ [v] @ vals r"

text \<open>
  Every key of the left subtree is strictly less than the key of the node, and every key
  of the right subtree is greater than or equal to it.
\<close>

fun search_tree :: "'a::linorder node \<Rightarrow> bool" where
  "search_tree Empty = True"
| "search_tree (Node l r v ko) =
     ((\<forall>k \<in> set (keys l). k < last_slot v ko) \<and> (\<forall>k \<in> set (keys r). last_slot v ko \<le> k)
      \<and> search_tree l \<and> search_tree r)"

text \<open>Every node holds the key that the key function \<open>kf\<close> gives for its value.\<close>

fun keyed :: "('a \<Rightarrow> 'a) \<Rightarrow> 'a node \<Rightarrow> bool" where
  "keyed kf Empty = True"
| "keyed kf (Node l r v ko) = (last_slot v ko = kf v \<and> keyed kf l \<and> keyed kf r)"

text \<open>
  What holds of every tree that a program can hold: the search-tree invariant, the stored
  keys are those of the key function, and the count is the number of nodes.
\<close>

definition consistent :: "'a::linorder bst \<Rightarrow> bool" where
  "consistent t \<longleftrightarrow>
     search_tree (root t) \<and> keyed (key_of t) (root t) \<and> len t = int (length (vals (root t)))"

subsection \<open>Two example trees\<close>

text \<open>
  The tree after inserting 5, 3, 8, 1, 4 with no key function, and a tree with a key
  function that returns a new object, the successor of the value.
\<close>

definition sample :: "int bst" where
  "sample = snd (run repr_int (map Insert [5, 3, 8, 1, 4]) (init None))"

definition keyed_sample :: "int bst" where
  "keyed_sample = insert_bst 1 (init (Some (\<lambda>x. NewObject (x + 1))))"

section \<open>Properties\<close>

subsection \<open>Traversal\<close>

lemma iter_loop_walk:
  "Empty \<notin> set stack \<Longrightarrow>
   iter_loop pre post stack node = walk pre post node @ concat (map (resume pre post) (rev stack))"
proof (induction pre post stack node rule: iter_loop.induct)
  case (1 pre post stack node)
  note pop = "1.IH"(1) and push = "1.IH"(2) and ne = "1.prems"
  show ?case
  proof (cases node)
    case (Node l r v ko)
    then have "iter_loop pre post stack node = iter_loop pre post (stack @ [node]) (pick pre l r)"
      by (subst iter_loop.simps) simp
    also have "\<dots> = walk pre post (pick pre l r) @ concat (map (resume pre post) (rev (stack @ [node])))"
      using push [OF _ Node] Node ne by simp
    finally show ?thesis using Node by simp
  next
    case Empty
    show ?thesis
    proof (cases "stack = []")
      case True
      with Empty show ?thesis by (subst iter_loop.simps) simp
    next
      case False
      then have s: "stack = butlast stack @ [last stack]" by simp
      from False ne have "last stack \<noteq> Empty" using last_in_set by metis
      then obtain l r v ko where y: "last stack = Node l r v ko" by (cases "last stack") auto
      from ne have nb: "Empty \<notin> set (butlast stack)" by (meson in_set_butlastD)
      have "iter_loop pre post stack node = v # iter_loop pre post (butlast stack) (pick post l r)"
        using Empty False y by (subst iter_loop.simps) simp
      also have "\<dots> = v # walk pre post (pick post l r) @ concat (map (resume pre post) (rev (butlast stack)))"
        using pop [OF _ Empty y nb] False by simp
      also have "\<dots> = concat (map (resume pre post) (rev (butlast stack @ [last stack])))"
        using y by simp
      finally show ?thesis using Empty s by simp
    qed
  qed
qed

lemma walk_left_right: "walk LEFT RIGHT n = vals n"
  by (induction n) simp_all

lemma walk_right_left: "walk RIGHT LEFT n = rev (vals n)"
  by (induction n) simp_all

lemma values_forward: "values_bst False t = vals (root t)"
  by (simp add: values_bst_def iter_def iter_loop_walk walk_left_right)

lemma values_reverse: "values_bst True t = rev (vals (root t))"
  by (simp add: values_bst_def iter_def iter_loop_walk walk_right_left)

subsection \<open>Insertion\<close>

lemma keys_insert_loop:
  "(same \<Longrightarrow> k = v) \<Longrightarrow> set (keys (insert_loop k same v n)) = insert k (set (keys n))"
  by (induction n) (auto simp: last_slot_def)

lemma vals_insert_loop: "set (vals (insert_loop k same v n)) = insert v (set (vals n))"
  by (induction n) auto

lemma length_vals_insert_loop: "length (vals (insert_loop k same v n)) = Suc (length (vals n))"
  by (induction n) auto

lemma search_tree_insert_loop:
  "(same \<Longrightarrow> k = v) \<Longrightarrow> search_tree n \<Longrightarrow> search_tree (insert_loop k same v n)"
  by (induction n) (auto simp: keys_insert_loop last_slot_def)

lemma keyed_insert_loop:
  "(same \<Longrightarrow> k = v) \<Longrightarrow> kf v = k \<Longrightarrow> keyed kf n \<Longrightarrow> keyed kf (insert_loop k same v n)"
  by (induction n) (auto simp: last_slot_def)

lemma root_insert_bst:
  "root (insert_bst v t) =
     insert_loop (fst (compute_key (sort_key t) v)) (snd (compute_key (sort_key t) v)) v (root t)"
  by (simp add: insert_bst_def split: prod.splits)

lemma sort_key_insert_bst: "sort_key (insert_bst v t) = sort_key t"
  by (simp add: insert_bst_def split: prod.splits)

lemma len_insert_bst: "len (insert_bst v t) = len t + 1"
  by (simp add: insert_bst_def split: prod.splits)

lemma key_of_insert_bst: "key_of (insert_bst v t) = key_of t"
  by (rule ext) (simp add: key_of_def sort_key_insert_bst)

lemma compute_key_snd: "snd (compute_key sk v) \<Longrightarrow> fst (compute_key sk v) = v"
  by (auto simp: compute_key_def split: option.splits keyres.splits)

lemma search_tree_insert_bst: "search_tree (root t) \<Longrightarrow> search_tree (root (insert_bst v t))"
  by (simp add: root_insert_bst search_tree_insert_loop compute_key_snd)

lemma keyed_insert_bst:
  "keyed (key_of t) (root t) \<Longrightarrow> keyed (key_of (insert_bst v t)) (root (insert_bst v t))"
  by (simp add: key_of_insert_bst root_insert_bst keyed_insert_loop compute_key_snd key_of_def)

lemma vals_insert_bst: "set (vals (root (insert_bst v t))) = insert v (set (vals (root t)))"
  by (simp add: root_insert_bst vals_insert_loop)

subsection \<open>The calls and the trees they reach\<close>

lemma pop_raises: "pop k t = (Inl AttributeError, t)"
  by (simp add: pop_def pop_node_method_def)

lemma pop_min_raises: "pop_min t = (Inl AttributeError, t)"
  by (simp add: pop_min_def pop_node_method_def)

lemma pop_max_raises: "pop_max t = (Inl AttributeError, t)"
  by (simp add: pop_max_def pop_node_method_def)

lemma exec_state: "snd (exec rp c t) = (case c of Insert v \<Rightarrow> insert_bst v t | _ \<Rightarrow> t)"
  by (cases c) (simp_all add: pop_raises pop_min_raises pop_max_raises)

lemma consistent_init: "consistent (init sk)"
  by (simp add: consistent_def init_def)

lemma consistent_insert_bst: "consistent t \<Longrightarrow> consistent (insert_bst v t)"
  unfolding consistent_def
  using search_tree_insert_bst [of t v] keyed_insert_bst [of t v]
  by (simp add: len_insert_bst root_insert_bst length_vals_insert_loop)

lemma consistent_exec: "consistent t \<Longrightarrow> consistent (snd (exec rp c t))"
  by (cases c) (simp_all add: pop_raises pop_min_raises pop_max_raises consistent_insert_bst)

lemma reachable_consistent: "reachable t \<Longrightarrow> consistent t"
  by (induction rule: reachable.induct) (simp_all add: consistent_init consistent_exec)

text \<open>On a tree that a program can hold, the root is non-empty exactly when \<open>len\<close> is positive.\<close>

lemma reachable_nonempty: "reachable t \<Longrightarrow> root t \<noteq> Empty \<longleftrightarrow> 0 < len_bst t"
  by (drule reachable_consistent, cases "root t") (simp_all add: consistent_def len_bst_def)

subsection \<open>Order, extremes and lookup\<close>

lemma sorted_keys: "search_tree n \<Longrightarrow> sorted (keys n)"
proof (induction n)
  case Empty
  show ?case by simp
next
  case (Node l r v ko)
  then have "sorted (keys l)" "sorted (keys r)"
    and lo: "\<forall>k \<in> set (keys l). k < last_slot v ko"
    and hi: "\<forall>k \<in> set (keys r). last_slot v ko \<le> k"
    by simp_all
  moreover have "\<forall>a \<in> set (keys l). \<forall>b \<in> set (keys r). a \<le> b"
    using lo hi by (meson less_le_trans less_imp_le)
  ultimately show ?case
    by (auto simp: sorted_append less_imp_le)
qed

lemma keyed_keys: "keyed kf n \<Longrightarrow> map kf (vals n) = keys n"
  by (induction n) simp_all

lemma vals_nonempty: "n \<noteq> Empty \<Longrightarrow> vals n \<noteq> []"
  by (cases n) simp_all

lemma extreme_left:
  "n \<noteq> Empty \<Longrightarrow>
   (case extreme_loop LEFT n of Inl e \<Rightarrow> Inl e | Inr m \<Rightarrow> node_value m) = Inr (hd (vals n))"
  by (induction n) (simp_all add: vals_nonempty)

lemma extreme_right:
  "n \<noteq> Empty \<Longrightarrow>
   (case extreme_loop RIGHT n of Inl e \<Rightarrow> Inl e | Inr m \<Rightarrow> node_value m) = Inr (last (vals n))"
  by (induction n) (simp_all add: vals_nonempty)

lemma find_loop_present:
  "search_tree n \<Longrightarrow> k \<in> set (keys n) \<Longrightarrow>
   \<exists>l r v ko. find_loop k n = Inr (Node l r v ko) \<and> last_slot v ko = k"
proof (induction n)
  case Empty
  then show ?case by simp
next
  case (Node l r v ko)
  show ?case
  proof (cases "k < last_slot v ko")
    case True
    with Node.prems have "k \<in> set (keys l)" by auto
    with Node True show ?thesis by simp
  next
    case False
    show ?thesis
    proof (cases "last_slot v ko < k")
      case True
      with Node.prems have "k \<in> set (keys r)" by auto
      with Node True False show ?thesis by simp
    next
      case nogt: False
      with False have "last_slot v ko = k" by simp
      with False show ?thesis by simp
    qed
  qed
qed

lemma find_loop_keyed:
  "keyed kf n \<Longrightarrow> find_loop k n = Inr (Node l r v ko) \<Longrightarrow> kf v = last_slot v ko"
  by (induction n) (auto split: if_splits)

lemma find_loop_absent: "k \<notin> set (keys n) \<Longrightarrow> find_loop k n = Inl KeyError"
  by (induction n) auto

lemma find_bst_present:
  assumes "consistent t" and "v \<in> set (vals (root t))"
  shows "\<exists>v'. find_bst (key_of t v) t = Inr v' \<and> key_of t v' = key_of t v"
proof -
  from assms have st: "search_tree (root t)" and kd: "keyed (key_of t) (root t)"
    by (simp_all add: consistent_def)
  from assms(2) have "key_of t v \<in> set (map (key_of t) (vals (root t)))" by simp
  then have "key_of t v \<in> set (keys (root t))" using keyed_keys [OF kd] by simp
  from find_loop_present [OF st this] obtain l r v' ko
    where f: "find_loop (key_of t v) (root t) = Inr (Node l r v' ko)"
      and k: "last_slot v' ko = key_of t v" by blast
  from find_loop_keyed [OF kd f] k have "key_of t v' = key_of t v" by simp
  moreover from f have "find_bst (key_of t v) t = Inr v'"
    by (simp add: find_bst_def find_node_def)
  ultimately show ?thesis by blast
qed

subsection \<open>Sequences of calls\<close>

lemma sort_key_exec: "sort_key (snd (exec rp c t)) = sort_key t"
  by (cases c) (simp_all add: pop_raises pop_min_raises pop_max_raises sort_key_insert_bst)

lemma snd_run_Cons: "snd (run rp (c # cs) t) = snd (run rp cs (snd (exec rp c t)))"
  by (simp split: prod.splits)

lemma fst_run_Cons:
  "fst (run rp (c # cs) t) = fst (exec rp c t) # fst (run rp cs (snd (exec rp c t)))"
  by (simp split: prod.splits)

lemma reachable_run: "reachable t \<Longrightarrow> reachable (snd (run rp cs t))"
proof (induction cs arbitrary: t)
  case Nil
  then show ?case by simp
next
  case (Cons c cs)
  from Cons.prems have "reachable (snd (exec rp c t))" by (rule reachable.called)
  from Cons.IH [OF this] show ?case by (simp only: snd_run_Cons)
qed

lemma vals_run:
  "set (vals (root (snd (run rp cs t)))) = set (vals (root t)) \<union> {v. Insert v \<in> set cs}"
proof (induction cs arbitrary: t)
  case Nil
  show ?case by simp
next
  case (Cons c cs)
  have "set (vals (root (snd (run rp (c # cs) t))))
      = set (vals (root (snd (run rp cs (snd (exec rp c t))))))"
    by (simp only: snd_run_Cons)
  also have "\<dots> = set (vals (root (snd (exec rp c t)))) \<union> {v. Insert v \<in> set cs}"
    by (rule Cons.IH)
  also have "\<dots> = set (vals (root t)) \<union> {v. Insert v \<in> set (c # cs)}"
    by (cases c) (auto simp: pop_raises pop_min_raises pop_max_raises vals_insert_bst)
  finally show ?case .
qed

lemma run_inserts:
  "fst (run rp (map Insert vs) t) = replicate (length vs) (Inr NoneVal)
   \<and> len (snd (run rp (map Insert vs) t)) = len t + int (length vs)"
proof (induction vs arbitrary: t)
  case Nil
  show ?case by simp
next
  case (Cons v vs)
  from Cons.IH [of "insert_bst v t"] show ?case
    by (simp add: snd_run_Cons fst_run_Cons len_insert_bst del: run.simps)
qed

subsection \<open>Rendering and the example trees\<close>

text \<open>The rendering does not depend on \<open>show_key\<close>.\<close>

lemma pprint_node_show_key:
  "pprint_node rp n d show_key sp = pprint_node rp n d (\<not> show_key) sp"
  by (induction n arbitrary: d) simp_all

lemma sample_eq:
  "sample = \<lparr>root = Node (Node (Node Empty Empty 1 None) (Node Empty Empty 4 None) 3 None)
                        (Node Empty Empty 8 None) 5 None,
             sort_key = None, len = 5\<rparr>"
  by (simp add: sample_def insert_bst_def compute_key_def init_def last_slot_def)

lemma reachable_sample: "reachable sample"
  unfolding sample_def by (intro reachable_run reachable.constructed)

section \<open>The claims\<close>

text \<open>
  C1, as the code behaves. \<open>pop(key)\<close> should return a value with the queried key, remove
  one element and decrement the length. The tree that holds 5, 3, 8, 1, 4 holds the key
  3, and \<open>pop(3)\<close> raises AttributeError, since the class has no \<open>_pop_node\<close>: the tree
  still has 5 elements and the traversal still yields 3. For the absent key 7 it raises
  AttributeError too, not KeyError.
\<close>

theorem pop_is_undefined:
  "find_bst 3 sample = Inr 3
   \<and> exec repr_int (Pop 3) sample = (Inl AttributeError, sample)
   \<and> exec repr_int (Pop 7) sample = (Inl AttributeError, sample)
   \<and> len_bst (snd (exec repr_int (Pop 3) sample)) = 5
   \<and> values_bst False (snd (exec repr_int (Pop 3) sample)) = [1, 3, 4, 5, 8]"
  by (simp add: pop_raises values_forward len_bst_def)
     (simp add: sample_eq find_bst_def find_node_def last_slot_def)

text \<open>
  C2. The search-tree invariant holds of a constructed tree, of every tree that a
  program can hold, and of the tree that any public operation leaves behind: in every
  node the keys of the left subtree are strictly less than the key of the node, and the
  keys of the right subtree are greater than or equal to it.
\<close>

theorem search_tree_invariant:
  assumes "reachable t"
  shows "search_tree (root (init sk)) \<and> search_tree (root t)
         \<and> search_tree (root (snd (exec rp c t)))"
proof -
  from assms have "consistent t" by (rule reachable_consistent)
  then have "consistent (snd (exec rp c t))" by (rule consistent_exec)
  with \<open>consistent t\<close> show ?thesis by (simp add: consistent_def init_def)
qed

theorem search_tree_invariant_witness:
  "reachable sample \<and> search_tree (root (init None :: int bst)) \<and> search_tree (root sample)
   \<and> search_tree (root (snd (exec repr_int (Insert 4) sample)))"
  using reachable_sample search_tree_invariant [OF reachable_sample, of None repr_int "Insert 4"]
  by (rule conjI)

text \<open>
  C3. Any sequence of \<open>n\<close> calls of \<open>insert\<close> on a freshly constructed tree, duplicates
  or not, returns normally at every call, and afterwards \<open>len\<close> is \<open>n\<close>.
\<close>

theorem inserts_counted:
  "fst (run rp (map Insert vs) (init sk)) = replicate (length vs) (Inr NoneVal)
   \<and> len_bst (snd (run rp (map Insert vs) (init sk))) = int (length vs)"
  using run_inserts [of rp vs "init sk"] by (simp add: len_bst_def init_def)

text \<open>
  C4. On every tree that a program can hold, \<open>values(reverse=False)\<close> yields values
  whose keys are in non-decreasing order, \<open>values(reverse=True)\<close> yields values whose
  keys are in non-increasing order, and each yields exactly \<open>len\<close> values.
\<close>

theorem values_sorted:
  assumes "reachable t"
  shows "sorted (map (key_of t) (values_bst False t))
         \<and> sorted_wrt (\<lambda>a b. b \<le> a) (map (key_of t) (values_bst True t))
         \<and> int (length (values_bst False t)) = len_bst t
         \<and> int (length (values_bst True t)) = len_bst t"
proof -
  from assms have c: "consistent t" by (rule reachable_consistent)
  then have k: "map (key_of t) (vals (root t)) = keys (root t)"
    by (simp add: consistent_def keyed_keys)
  from c have s: "sorted (keys (root t))" by (simp add: consistent_def sorted_keys)
  have "sorted_wrt (\<lambda>a b. b \<le> a) (rev (keys (root t)))"
    using s by (simp add: sorted_wrt_rev)
  with s k c show ?thesis
    by (simp add: values_forward values_reverse rev_map [symmetric] consistent_def len_bst_def)
qed

theorem values_sorted_witness:
  "reachable sample \<and> sorted (map (key_of sample) (values_bst False sample))
   \<and> sorted_wrt (\<lambda>a b. b \<le> a) (map (key_of sample) (values_bst True sample))
   \<and> int (length (values_bst False sample)) = len_bst sample
   \<and> int (length (values_bst True sample)) = len_bst sample"
  using reachable_sample values_sorted [OF reachable_sample] by (rule conjI)

text \<open>
  C5. On a tree with a non-empty root the ascending traversal is not empty,
  \<open>minimum()\<close> returns its first value and \<open>maximum()\<close> returns its last value.
\<close>

theorem extremes_are_ends:
  assumes "root t \<noteq> Empty"
  shows "values_bst False t \<noteq> [] \<and> minimum t = Inr (hd (values_bst False t))
         \<and> maximum t = Inr (last (values_bst False t))"
  using assms
  by (simp add: minimum_def maximum_def extreme_node_def values_forward extreme_left extreme_right
      vals_nonempty)

theorem extremes_are_ends_witness:
  "root sample \<noteq> Empty \<and> values_bst False sample = [1, 3, 4, 5, 8]
   \<and> minimum sample = Inr 1 \<and> maximum sample = Inr 8"
proof -
  have h: "root sample \<noteq> Empty" by (simp add: sample_eq)
  have v: "values_bst False sample = [1, 3, 4, 5, 8]" by (simp add: values_forward sample_eq)
  from extremes_are_ends [OF h] h v show ?thesis by simp
qed

text \<open>
  C6. After any sequence of calls on a freshly constructed tree, \<open>find\<close> with the key
  of a value that one of the calls inserted returns a value, and the key of that value
  is the queried key. No call removes a key, so every inserted value counts.
\<close>

theorem find_inserted:
  assumes "Insert v \<in> set cs" and "t = snd (run rp cs (init sk))"
  shows "\<exists>v'. find_bst (key_of t v) t = Inr v' \<and> key_of t v' = key_of t v"
proof -
  have "reachable t" unfolding assms(2) by (intro reachable_run reachable.constructed)
  then have c: "consistent t" by (rule reachable_consistent)
  from assms have "v \<in> set (vals (root t))" by (simp add: vals_run)
  with c show ?thesis by (rule find_bst_present)
qed

theorem find_inserted_witness:
  "Insert 5 \<in> set [Insert 5, Insert 3, Pop 5, Insert (8::int)]
   \<and> (\<exists>v'. find_bst (key_of (snd (run repr_int [Insert 5, Insert 3, Pop 5, Insert 8] (init None))) 5)
              (snd (run repr_int [Insert 5, Insert 3, Pop 5, Insert 8] (init None))) = Inr v'
          \<and> key_of (snd (run repr_int [Insert 5, Insert 3, Pop 5, Insert 8] (init None))) v'
            = key_of (snd (run repr_int [Insert 5, Insert 3, Pop 5, Insert 8] (init None))) 5)"
proof -
  have h: "Insert 5 \<in> set [Insert 5, Insert 3, Pop 5, Insert (8::int)]" by simp
  show ?thesis using h find_inserted [OF h refl, of repr_int None] by (rule conjI)
qed

text \<open>
  C7, as the code behaves. On an empty tree \<open>minimum()\<close> and \<open>maximum()\<close> raise
  IndexError (the spec's EmptyCollection) and \<open>find(k)\<close> raises KeyError (the spec's
  KeyNotFound). \<open>pop_min()\<close> and \<open>pop_max()\<close> raise AttributeError instead of
  IndexError: the lookup of \<open>_pop_node\<close> fails before \<open>_extreme_node\<close> is called.
\<close>

theorem empty_tree_errors:
  "minimum (init sk) = Inl IndexError \<and> maximum (init sk) = Inl IndexError
   \<and> find_bst k (init sk) = Inl KeyError
   \<and> exec rp Pop_min (init sk) = (Inl AttributeError, init sk)
   \<and> exec rp Pop_max (init sk) = (Inl AttributeError, init sk)"
  by (simp add: minimum_def maximum_def extreme_node_def find_bst_def find_node_def init_def
      pop_min_raises pop_max_raises)

text \<open>
  C8, as the code behaves. With \<open>show_key=False\<close> no line should carry a key. The tree
  whose key function maps 1 to the new object 2 is rendered with \<open>show_key=False\<close> as
  the line \<open>-1 (key=2)\<close>: \<open>_pprint\<close> tests the length of the node and never reads
  \<open>show_key\<close>.
\<close>

theorem key_shown_without_show_key:
  "pprint repr_int 10 False False keyed_sample = ''-1 (key=2)''"
  by code_simp

text \<open>
  C9. On every tree, \<open>values(reverse=True)\<close> yields the reversal of what
  \<open>values(reverse=False)\<close> yields, values with equal keys included.
\<close>

theorem reverse_is_reversal: "values_bst True t = rev (values_bst False t)"
  by (simp add: values_forward values_reverse)

text \<open>
  C10. \<open>find\<close>, \<open>minimum\<close>, \<open>maximum\<close>, \<open>values\<close>, \<open>__len__\<close> and \<open>pprint\<close> leave the
  tree as it was, root and count, whatever they return or raise.
\<close>

theorem readers_leave_tree:
  "snd (exec rp (Find k) t) = t \<and> snd (exec rp Minimum t) = t \<and> snd (exec rp Maximum t) = t
   \<and> snd (exec rp (Values reverse) t) = t \<and> snd (exec rp Len t) = t
   \<and> snd (exec rp (Pprint max_depth frame show_key) t) = t"
  by simp

end
